theory Spec2Isabelle
  imports Main
begin

section \<open>The FollowUser controller (voice-presence follow)\<close>

text \<open>
  The controller is the plugin \<^verbatim>\<open>FollowUser\<close>: module-level variables, a context-menu
  action that toggles following, a \<^verbatim>\<open>VOICE_STATE_UPDATES\<close> handler, a polling interval and
  the chain of timers started by \<^verbatim>\<open>joinVoiceChannel\<close>.  Everything runs on one thread:
  a handler runs to completion, and the continuations it leaves behind (an awaited promise,
  a \<^verbatim>\<open>setTimeout\<close> callback) run later, one at a time.  The model keeps those
  continuations in the state and lets any of them be resumed next, which covers every
  order the host's event loop can produce.
\<close>

subsection \<open>Host collaborators\<close>

text \<open>A JavaScript exception thrown by a collaborator; its payload is never inspected.\<close>

datatype error = Thrown

datatype perm = VIEW_CHANNEL | CONNECT

text \<open>
  A channel record of \<^verbatim>\<open>ChannelStore\<close>.  The three predicates are methods that may be
  missing (\<open>None\<close>) and, when called, return a boolean or throw.
\<close>

record channel =
  channel_id :: string
  guild_id :: "string option"
  isPrivate :: "(error + bool) option"
  isDM :: "(error + bool) option"
  isGroupDM :: "(error + bool) option"

datatype toast = Searching string | Followed string

text \<open>
  What each collaborator answers when it is called.  A handler runs to completion, so one
  value of this record describes the host during one handler; the next handler may see
  another.  \<open>preload\<close> and \<open>restGet\<close> are asynchronous: the field is the way the returned
  promise settles (\<open>Inl\<close> is a rejection; a synchronous throw lands in the same
  \<^verbatim>\<open>catch\<close>).  \<open>guildIds\<close> is the value of
  \<^verbatim>\<open>GuildStore.getGuildIds?.() ?? Object.keys(GuildStore.getGuilds?.() ?? {})\<close>,
  \<open>getDefaultChannel\<close> the id of the default channel, \<open>getVoiceStateForUser\<close> the
  \<^verbatim>\<open>channelId\<close> of the user's voice state, \<open>getUser\<close> the \<^verbatim>\<open>username\<close> of the user,
  \<open>getGuild\<close>, \<open>getMember\<close> and \<open>getVoiceStates\<close> whether the looked-up value is truthy.
  \<^verbatim>\<open>FluxDispatcher.dispatch\<close> and \<^verbatim>\<open>ChannelRouter.transitionToChannel\<close> have no field:
  each of their call sites is the last statement of a \<^verbatim>\<open>try\<close> whose \<^verbatim>\<open>catch\<close> only
  logs, so whether they throw changes nothing.
\<close>

record host =
  getChannel :: "string \<Rightarrow> error + channel option"
  can :: "perm \<Rightarrow> channel \<Rightarrow> error + bool"
  guildIds :: "error + string list"
  getGuild :: "string \<Rightarrow> error + bool"
  getMember :: "string \<Rightarrow> string \<Rightarrow> error + bool"
  getVoiceStates :: "string \<Rightarrow> string \<Rightarrow> error + bool"
  getDefaultChannel :: "string \<Rightarrow> error + string option"
  hasPreload :: bool
  preload :: "string \<Rightarrow> string \<Rightarrow> error + unit"
  restGet :: "string \<Rightarrow> error + string list option"
  getVoiceStateForUser :: "string \<Rightarrow> error + string option"
  getVoiceChannelId :: "error + string option"
  getUser :: "string \<Rightarrow> error + string option"
  toastShow :: "toast \<Rightarrow> error + unit"
  selectVoiceChannel :: "string option \<Rightarrow> error + unit"

subsection \<open>Controller state\<close>

text \<open>Outbound calls, recorded in the order they are made.\<close>

datatype call =
    RequestSummaries string
  | Preload string string
  | TransitionToChannel string
  | SelectVoiceChannel "string option"
  | ToastShow toast
  | RestGetProfile string
  | GetVoiceStateForUser string

text \<open>
  A suspended continuation: what it waits for and where it resumes.
  \<open>PreloadGuildDataResumed c g d\<close> is \<^verbatim>\<open>preloadGuildData(c)\<close> after
  \<^verbatim>\<open>await ChannelActionCreators.preload(g, d)\<close>; \<open>Navigate c\<close> and \<open>Connect c\<close> are the two
  timer callbacks of \<^verbatim>\<open>joinVoiceChannel(c)\<close>; the last three belong to
  \<^verbatim>\<open>preloadMutualGuilds\<close>: after the REST request, after the preload of one guild (with
  the guilds still to visit), and after the 100 ms pause.
\<close>

datatype wait = Settled | Timeout int

datatype cont =
    PreloadGuildDataResumed string string string
  | Navigate string
  | Connect string
  | MutualGuildsFetched string
  | MutualGuildPreloaded string string "string list"
  | MutualGuildPaused string "string list"

text \<open>
  The module-level variables, followed by the two fields of the model: the suspended
  continuations and the calls made so far.  \<open>searchInterval\<close> holds the variables the
  interval callback closes over (\<^verbatim>\<open>userId\<close>, \<^verbatim>\<open>username\<close>).
\<close>

record plugin =
  disconnectFollow :: bool
  preloadDelay :: int
  enableDebugLogs :: bool
  followedUserId :: "string option"
  lastFollowedChannelId :: "string option"
  preloadedGuilds :: "string set"
  searchInterval :: "(string \<times> string) option"
  isSearching :: bool
  pending :: "(wait \<times> cont) list"
  calls :: "call list"

text \<open>The values of the variables when the module is loaded.\<close>

definition initial :: plugin where
  "initial = \<lparr>disconnectFollow = False, preloadDelay = 300, enableDebugLogs = False,
     followedUserId = None, lastFollowedChannelId = None, preloadedGuilds = {},
     searchInterval = None, isSearching = False, pending = [], calls = []\<rparr>"

text \<open>JavaScript truthiness of a \<^verbatim>\<open>string | null | undefined\<close>.\<close>

fun truthy :: "string option \<Rightarrow> bool" where
  "truthy None = False"
| "truthy (Some s) = (s \<noteq> [])"

definition called :: "call \<Rightarrow> plugin \<Rightarrow> plugin" where
  "called c s = s\<lparr>calls := calls s @ [c]\<rparr>"

definition suspend :: "wait \<Rightarrow> cont \<Rightarrow> plugin \<Rightarrow> plugin" where
  "suspend w k s = s\<lparr>pending := pending s @ [(w, k)]\<rparr>"

subsection \<open>Permission oracle\<close>

text \<open>\<^verbatim>\<open>f?.()\<close>: a missing method gives \<^verbatim>\<open>undefined\<close>, which is falsy.\<close>

fun optionalCall :: "(error + bool) option \<Rightarrow> error + bool" where
  "optionalCall None = Inr False"
| "optionalCall (Some r) = r"

text \<open>
  \<^verbatim>\<open>typeof channel.isPrivate === "function" ? channel.isPrivate()
     : channel.isDM?.() || channel.isGroupDM?.()\<close>
\<close>

definition channelIsPrivate :: "channel \<Rightarrow> error + bool" where
  "channelIsPrivate ch =
     (case isPrivate ch of
        Some r \<Rightarrow> r
      | None \<Rightarrow>
          (case optionalCall (isDM ch) of
             Inl e \<Rightarrow> Inl e
           | Inr True \<Rightarrow> Inr True
           | Inr False \<Rightarrow> optionalCall (isGroupDM ch)))"

text \<open>
  \<^verbatim>\<open>canViewChannel\<close>.  The lookup in the channel store is outside the \<^verbatim>\<open>try\<close>, so its
  exception leaves the function; everything after it is inside.  The callers of this file
  pass a string, so the falsy argument is the empty string.
\<close>

definition canViewChannel :: "host \<Rightarrow> string \<Rightarrow> error + bool" where
  "canViewChannel h channelId =
     (if channelId = [] then Inr False
      else case getChannel h channelId of
        Inl e \<Rightarrow> Inl e
      | Inr None \<Rightarrow> Inr True
      | Inr (Some ch) \<Rightarrow>
          (case channelIsPrivate ch of
             Inl e \<Rightarrow> Inr False
           | Inr True \<Rightarrow> Inr True
           | Inr False \<Rightarrow>
               (case can h VIEW_CHANNEL ch of Inl e \<Rightarrow> Inr False | Inr b \<Rightarrow> Inr b)))"

text \<open>\<^verbatim>\<open>canJoinChannel\<close>: the same shape, but a channel that is not loaded cannot be joined.\<close>

definition canJoinChannel :: "host \<Rightarrow> string \<Rightarrow> error + bool" where
  "canJoinChannel h channelId =
     (if channelId = [] then Inr False
      else case getChannel h channelId of
        Inl e \<Rightarrow> Inl e
      | Inr None \<Rightarrow> Inr False
      | Inr (Some ch) \<Rightarrow>
          (case channelIsPrivate ch of
             Inl e \<Rightarrow> Inr False
           | Inr True \<Rightarrow> Inr True
           | Inr False \<Rightarrow>
               (case can h VIEW_CHANNEL ch of
                  Inl e \<Rightarrow> Inr False
                | Inr canView \<Rightarrow>
                    (case can h CONNECT ch of
                       Inl e \<Rightarrow> Inr False
                     | Inr canConnect \<Rightarrow> Inr (canView \<and> canConnect)))))"

subsection \<open>Join orchestrator\<close>

text \<open>
  \<^verbatim>\<open>preloadGuildData\<close> up to its only \<^verbatim>\<open>await\<close>.  The whole body is in a \<^verbatim>\<open>try\<close>, so
  the promise it returns never rejects.  The result says whether the function finished or
  is waiting for the preload of a guild.
\<close>

datatype progress = Finished | AwaitingPreload string string

definition preloadGuildData :: "host \<Rightarrow> string \<Rightarrow> plugin \<Rightarrow> progress \<times> plugin" where
  "preloadGuildData h channelId s =
     (case getChannel h channelId of
        Inl e \<Rightarrow> (Finished, s)
      | Inr None \<Rightarrow>
          (case guildIds h of
             Inl e \<Rightarrow> (Finished, s)
           | Inr gs \<Rightarrow> (Finished, s\<lparr>calls := calls s @ map RequestSummaries gs\<rparr>))
      | Inr (Some ch) \<Rightarrow>
          (case guild_id ch of
             None \<Rightarrow> (Finished, s)
           | Some guildId \<Rightarrow>
               if guildId = [] then (Finished, s)
               else
                 (case getDefaultChannel h guildId of
                    Inl e \<Rightarrow> (Finished, called (RequestSummaries guildId) s)
                  | Inr None \<Rightarrow> (Finished, called (RequestSummaries guildId) s)
                  | Inr (Some d) \<Rightarrow>
                      if d \<noteq> [] \<and> hasPreload h
                      then (AwaitingPreload guildId d, called (Preload guildId d) s)
                      else (Finished, called (RequestSummaries guildId) s))))"

text \<open>
  The \<^verbatim>\<open>.then\<close> callback of \<^verbatim>\<open>joinVoiceChannel\<close>: it reads the preload delay and arms
  the navigate timer.  It runs as a microtask as soon as \<^verbatim>\<open>preloadGuildData\<close> has
  finished, before any other handler, and is modelled as part of the step that finishes
  \<^verbatim>\<open>preloadGuildData\<close>.  The \<^verbatim>\<open>.catch\<close> callback would run the same two stages; it is
  never entered, since the promise never rejects and the \<^verbatim>\<open>.then\<close> callback only arms a
  timer.
\<close>

definition preloadCompleted :: "string \<Rightarrow> plugin \<Rightarrow> plugin" where
  "preloadCompleted channelId s = suspend (Timeout (preloadDelay s)) (Navigate channelId) s"

definition joinVoiceChannel :: "host \<Rightarrow> string \<Rightarrow> plugin \<Rightarrow> plugin" where
  "joinVoiceChannel h channelId s =
     (case preloadGuildData h channelId (s\<lparr>lastFollowedChannelId := Some channelId\<rparr>) of
        (Finished, s') \<Rightarrow> preloadCompleted channelId s'
      | (AwaitingPreload g d, s') \<Rightarrow> suspend Settled (PreloadGuildDataResumed channelId g d) s')"

text \<open>
  \<^verbatim>\<open>preloadGuildData\<close> after the awaited preload has settled: success and failure both
  go on to request the channel summaries of the guild.
\<close>

definition preloadGuildDataResumed :: "string \<Rightarrow> string \<Rightarrow> plugin \<Rightarrow> plugin" where
  "preloadGuildDataResumed channelId guildId s =
     preloadCompleted channelId (called (RequestSummaries guildId) s)"

text \<open>The first timer callback: navigate if the channel can be viewed, then arm the second.\<close>

definition navigateStage :: "host \<Rightarrow> string \<Rightarrow> plugin \<Rightarrow> (error + unit) \<times> plugin" where
  "navigateStage h channelId s =
     (case canViewChannel h channelId of
        Inl e \<Rightarrow> (Inl e, s)
      | Inr v \<Rightarrow>
          (Inr (), suspend (Timeout 100) (Connect channelId)
                     (if v then called (TransitionToChannel channelId) s else s)))"

text \<open>The second timer callback: connect if the channel can be joined.\<close>

definition connectStage :: "host \<Rightarrow> string \<Rightarrow> plugin \<Rightarrow> (error + unit) \<times> plugin" where
  "connectStage h channelId s =
     (case canJoinChannel h channelId of
        Inl e \<Rightarrow> (Inl e, s)
      | Inr j \<Rightarrow>
          if j then
            (case selectVoiceChannel h (Some channelId) of
               Inl e \<Rightarrow> (Inl e, called (SelectVoiceChannel (Some channelId)) s)
             | Inr u \<Rightarrow> (Inr (), called (SelectVoiceChannel (Some channelId)) s))
          else (Inr (), s))"

subsection \<open>Location search loop\<close>

definition stopSearching :: "plugin \<Rightarrow> plugin" where
  "stopSearching s = s\<lparr>searchInterval := None, isSearching := False\<rparr>"

definition checkUserInVoiceChannel ::
  "host \<Rightarrow> string \<Rightarrow> plugin \<Rightarrow> (error + string option) \<times> plugin" where
  "checkUserInVoiceChannel h userId s =
     (case getVoiceStateForUser h userId of
        Inl e \<Rightarrow> (Inl e, called (GetVoiceStateForUser userId) s)
      | Inr currentChannelId \<Rightarrow>
          (Inr (if truthy currentChannelId then currentChannelId else None),
           called (GetVoiceStateForUser userId) s))"

text \<open>Show a toast; the call is recorded whether or not it throws.\<close>

definition showToast :: "host \<Rightarrow> toast \<Rightarrow> plugin \<Rightarrow> (error + unit) \<times> plugin" where
  "showToast h t s = (toastShow h t, called (ToastShow t) s)"

definition startSearching :: "host \<Rightarrow> string \<Rightarrow> string \<Rightarrow> plugin \<Rightarrow> (error + unit) \<times> plugin" where
  "startSearching h userId username s =
     (case showToast h (Searching username) (stopSearching s) of
        (Inl e, s') \<Rightarrow> (Inl e, s')
      | (Inr u, s') \<Rightarrow>
          (Inr (), s'\<lparr>isSearching := True, searchInterval := Some (userId, username)\<rparr>))"

text \<open>
  One firing of the interval callback.  Without an armed interval there is nothing to
  fire.
\<close>

definition tick :: "host \<Rightarrow> plugin \<Rightarrow> (error + unit) \<times> plugin" where
  "tick h s =
     (case searchInterval s of
        None \<Rightarrow> (Inr (), s)
      | Some (userId, username) \<Rightarrow>
          if truthy (followedUserId s) \<and> followedUserId s = Some userId then
            (case checkUserInVoiceChannel h userId s of
               (Inl e, s1) \<Rightarrow> (Inl e, s1)
             | (Inr None, s1) \<Rightarrow> (Inr (), s1)
             | (Inr (Some channelId), s1) \<Rightarrow>
                 if Some channelId = lastFollowedChannelId s1 then (Inr (), s1)
                 else
                   (case showToast h (Followed username) (stopSearching s1) of
                      (Inl e, s2) \<Rightarrow> (Inl e, s2)
                    | (Inr u, s2) \<Rightarrow> (Inr (), joinVoiceChannel h channelId s2)))
          else (Inr (), stopSearching s))"

subsection \<open>Bulk preload of mutual guilds\<close>

text \<open>
  The local detection of mutual guilds.  A throwing \<^verbatim>\<open>GuildStore.getGuild\<close> is caught by
  the outermost \<^verbatim>\<open>try\<close> and ends the whole function; the two membership checks have a
  \<^verbatim>\<open>try\<close> of their own.
\<close>

fun detectMutualGuilds :: "host \<Rightarrow> string \<Rightarrow> string list \<Rightarrow> error + string list" where
  "detectMutualGuilds h userId [] = Inr []"
| "detectMutualGuilds h userId (guildId # rest) =
     (case getGuild h guildId of
        Inl e \<Rightarrow> Inl e
      | Inr False \<Rightarrow> detectMutualGuilds h userId rest
      | Inr True \<Rightarrow>
          (case detectMutualGuilds h userId rest of
             Inl e \<Rightarrow> Inl e
           | Inr ms \<Rightarrow>
               Inr (if getMember h guildId userId = Inr True
                       \<or> getVoiceStates h guildId userId = Inr True
                    then guildId # ms else ms)))"

text \<open>
  The list the loop runs over: the guilds of the REST answer, or the local detection when
  the request failed or gave no guild.  \<open>Inl\<close> is the exception that ends the function.
\<close>

definition mutualGuildIds :: "host \<Rightarrow> string \<Rightarrow> error + string list" where
  "mutualGuildIds h userId =
     (let fetched = (case restGet h userId of Inr (Some gs) \<Rightarrow> gs | _ \<Rightarrow> [])
      in if fetched = [] then
           (case guildIds h of Inl e \<Rightarrow> Inl e | Inr allGuildIds \<Rightarrow> detectMutualGuilds h userId allGuildIds)
         else Inr fetched)"

text \<open>The loop over the mutual guilds, up to its next \<^verbatim>\<open>await\<close>.\<close>

fun preloadLoop :: "host \<Rightarrow> string list \<Rightarrow> plugin \<Rightarrow> plugin" where
  "preloadLoop h [] s = s"
| "preloadLoop h (guildId # rest) s =
     (if guildId \<in> preloadedGuilds s then preloadLoop h rest s
      else
        (case getDefaultChannel h guildId of
           Inl e \<Rightarrow> preloadLoop h rest s
         | Inr None \<Rightarrow> preloadLoop h rest (called (RequestSummaries guildId) s)
         | Inr (Some d) \<Rightarrow>
             if d \<noteq> [] \<and> hasPreload h
             then suspend Settled (MutualGuildPreloaded guildId d rest)
                    (called (Preload guildId d) s)
             else preloadLoop h rest (called (RequestSummaries guildId) s)))"

text \<open>\<^verbatim>\<open>preloadMutualGuilds\<close> up to \<^verbatim>\<open>await RestAPI.get\<close>.\<close>

definition preloadMutualGuilds :: "string \<Rightarrow> plugin \<Rightarrow> plugin" where
  "preloadMutualGuilds userId s =
     suspend Settled (MutualGuildsFetched userId) (called (RestGetProfile userId) s)"

definition mutualGuildsFetched :: "host \<Rightarrow> string \<Rightarrow> plugin \<Rightarrow> plugin" where
  "mutualGuildsFetched h userId s =
     (case mutualGuildIds h userId of
        Inl e \<Rightarrow> s
      | Inr gs \<Rightarrow> preloadLoop h gs s)"

text \<open>
  After the preload of one guild has settled: on success the guild is marked and the
  100 ms pause starts; on failure the \<^verbatim>\<open>catch\<close> goes on with the next guild.
\<close>

definition mutualGuildPreloaded ::
  "host \<Rightarrow> string \<Rightarrow> string \<Rightarrow> string list \<Rightarrow> plugin \<Rightarrow> plugin" where
  "mutualGuildPreloaded h guildId d rest s =
     (case preload h guildId d of
        Inl e \<Rightarrow> preloadLoop h rest s
      | Inr u \<Rightarrow>
          suspend (Timeout 100) (MutualGuildPaused guildId rest)
            (s\<lparr>preloadedGuilds := insert guildId (preloadedGuilds s)\<rparr>))"

definition mutualGuildPaused :: "host \<Rightarrow> string \<Rightarrow> string list \<Rightarrow> plugin \<Rightarrow> plugin" where
  "mutualGuildPaused h guildId rest s =
     preloadLoop h rest (called (RequestSummaries guildId) s)"

subsection \<open>Event loop\<close>

text \<open>Run one suspended continuation.\<close>

fun run :: "host \<Rightarrow> cont \<Rightarrow> plugin \<Rightarrow> (error + unit) \<times> plugin" where
  "run h (PreloadGuildDataResumed c g d) s = (Inr (), preloadGuildDataResumed c g s)"
| "run h (Navigate c) s = navigateStage h c s"
| "run h (Connect c) s = connectStage h c s"
| "run h (MutualGuildsFetched u) s = (Inr (), mutualGuildsFetched h u s)"
| "run h (MutualGuildPreloaded g d rest) s = (Inr (), mutualGuildPreloaded h g d rest s)"
| "run h (MutualGuildPaused g rest) s = (Inr (), mutualGuildPaused h g rest s)"

text \<open>Resume the \<open>i\<close>-th suspended continuation, if there is one.\<close>

definition resume :: "host \<Rightarrow> nat \<Rightarrow> plugin \<Rightarrow> (error + unit) \<times> plugin" where
  "resume h i s =
     (if i < length (pending s)
      then run h (snd (pending s ! i)) (s\<lparr>pending := take i (pending s) @ drop (Suc i) (pending s)\<rparr>)
      else (Inr (), s))"

subsection \<open>Follow session and event ingestor\<close>

text \<open>
  The action of the context-menu item for the user \<open>(userId, username)\<close>: unfollow when
  that user is followed, follow otherwise.
\<close>

definition followAction :: "host \<Rightarrow> string \<Rightarrow> string \<Rightarrow> plugin \<Rightarrow> (error + unit) \<times> plugin" where
  "followAction h userId username s =
     (if followedUserId s = Some userId
      then (Inr (), s\<lparr>followedUserId := None, lastFollowedChannelId := None\<rparr>)
      else
        (let s1 = preloadMutualGuilds userId
                    (s\<lparr>followedUserId := Some userId, lastFollowedChannelId := None\<rparr>);
             s2 = called (GetVoiceStateForUser userId) s1
         in case getVoiceStateForUser h userId of
              Inl e \<Rightarrow> (Inl e, s2)
            | Inr chanId \<Rightarrow>
                (case (if truthy chanId then chanId else None) of
                   Some c \<Rightarrow> showToast h (Followed username) (joinVoiceChannel h c s2)
                 | None \<Rightarrow> startSearching h userId username s2)))"

text \<open>One entry of a voice-state batch, and the payload that carries the batch.\<close>

record voiceState =
  userId :: "string option"
  user_id :: "string option"
  channelId :: "string option"

datatype updates = NotAnArray | Array "voiceState list"

record payload =
  voiceStates :: "updates option"
  voice_states :: "updates option"

text \<open>\<^verbatim>\<open>a ?? b\<close>\<close>

fun nullish :: "'a option \<Rightarrow> 'a option \<Rightarrow> 'a option" where
  "nullish None b = b"
| "nullish (Some a) b = Some a"

text \<open>\<^verbatim>\<open>UserStore.getUser(followedUserId)?.username || "user"\<close>\<close>

definition usernameOr :: "string option \<Rightarrow> string" where
  "usernameOr n = (case n of None \<Rightarrow> ''user'' | Some u \<Rightarrow> if u = [] then ''user'' else u)"

text \<open>
  The body of the loop over the batch.  \<open>Next\<close> goes on with the next entry
  (\<^verbatim>\<open>continue\<close>, or the end of the body); \<open>Return\<close> is the \<^verbatim>\<open>return\<close> of the branch
  where the disconnect flag is off.  The handler has returned before the loop when nobody
  is followed, so the body has nothing to do in that state.
\<close>

datatype flow = Next | Return

definition voiceStateUpdate :: "host \<Rightarrow> voiceState \<Rightarrow> plugin \<Rightarrow> (error + flow) \<times> plugin" where
  "voiceStateUpdate h vs s =
     (case followedUserId s of
        None \<Rightarrow> (Inr Next, s)
      | Some followed \<Rightarrow>
          if nullish (userId vs) (user_id vs) \<noteq> Some followed then (Inr Next, s)
          else
            (case (if truthy (channelId vs) then channelId vs else None) of
               Some newChannelId \<Rightarrow>
                 if Some newChannelId \<noteq> lastFollowedChannelId s then
                   (let s1 = joinVoiceChannel h newChannelId (stopSearching s)
                    in case getUser h followed of
                         Inl e \<Rightarrow> (Inl e, s1)
                       | Inr n \<Rightarrow>
                           (case showToast h (Followed (usernameOr n)) s1 of
                              (Inl e, s2) \<Rightarrow> (Inl e, s2)
                            | (Inr u, s2) \<Rightarrow> (Inr Next, s2)))
                 else (Inr Next, s)
             | None \<Rightarrow>
                 (case getUser h followed of
                    Inl e \<Rightarrow> (Inl e, s)
                  | Inr n \<Rightarrow>
                      (case startSearching h followed (usernameOr n) s of
                         (Inl e, s1) \<Rightarrow> (Inl e, s1)
                       | (Inr u, s1) \<Rightarrow>
                           if \<not> disconnectFollow s1 then (Inr Return, s1)
                           else
                             (case getVoiceChannelId h of
                                Inl e \<Rightarrow> (Inl e, s1)
                              | Inr myChanId \<Rightarrow>
                                  if truthy myChanId \<and> myChanId = lastFollowedChannelId s1 then
                                    (case selectVoiceChannel h None of
                                       Inl e \<Rightarrow> (Inl e, called (SelectVoiceChannel None) s1)
                                     | Inr u \<Rightarrow>
                                         (Inr Next,
                                          (called (SelectVoiceChannel None) s1)
                                            \<lparr>lastFollowedChannelId := None\<rparr>))
                                  else (Inr Next, s1))))))"

fun voiceStateLoop :: "host \<Rightarrow> voiceState list \<Rightarrow> plugin \<Rightarrow> (error + unit) \<times> plugin" where
  "voiceStateLoop h [] s = (Inr (), s)"
| "voiceStateLoop h (vs # rest) s =
     (case voiceStateUpdate h vs s of
        (Inl e, s') \<Rightarrow> (Inl e, s')
      | (Inr Return, s') \<Rightarrow> (Inr (), s')
      | (Inr Next, s') \<Rightarrow> voiceStateLoop h rest s')"

text \<open>The handler \<^verbatim>\<open>flux.VOICE_STATE_UPDATES\<close>.\<close>

definition VOICE_STATE_UPDATES :: "host \<Rightarrow> payload \<Rightarrow> plugin \<Rightarrow> (error + unit) \<times> plugin" where
  "VOICE_STATE_UPDATES h p s =
     (if \<not> truthy (followedUserId s) then (Inr (), s)
      else case nullish (voiceStates p) (voice_states p) of
        None \<Rightarrow> (Inr (), s)
      | Some NotAnArray \<Rightarrow> (Inr (), s)
      | Some (Array us) \<Rightarrow> voiceStateLoop h us s)"

subsection \<open>Lifecycle and settings\<close>

definition start :: "plugin \<Rightarrow> plugin" where
  "start s = stopSearching
     (s\<lparr>followedUserId := None, lastFollowedChannelId := None, preloadedGuilds := {}\<rparr>)"

definition stop :: "plugin \<Rightarrow> plugin" where
  "stop s = stopSearching
     (s\<lparr>followedUserId := None, lastFollowedChannelId := None, preloadedGuilds := {}\<rparr>)"

record newSettings =
  new_disconnectFollow :: "bool option"
  new_preloadDelay :: "int option"
  new_enableDebugLogs :: "bool option"

definition updateSettings :: "newSettings \<Rightarrow> plugin \<Rightarrow> plugin" where
  "updateSettings n s =
     s\<lparr>disconnectFollow := (case new_disconnectFollow n of None \<Rightarrow> disconnectFollow s | Some b \<Rightarrow> b),
       preloadDelay := (case new_preloadDelay n of None \<Rightarrow> preloadDelay s | Some d \<Rightarrow> d),
       enableDebugLogs := (case new_enableDebugLogs n of None \<Rightarrow> enableDebugLogs s | Some b \<Rightarrow> b)\<rparr>"

subsection \<open>Interleavings\<close>

text \<open>
  Everything the host can make the controller do: the menu action for a user, one firing
  of the search interval, a batch of voice states, start and stop, a settings update, and
  resuming a suspended continuation.  The host may answer differently at every step.
\<close>

datatype operation =
    MenuAction string string
  | Tick
  | VoiceStateUpdates payload
  | Start
  | Stop
  | UpdateSettings newSettings
  | Resume nat

fun perform :: "host \<Rightarrow> operation \<Rightarrow> plugin \<Rightarrow> plugin" where
  "perform h (MenuAction u n) s = snd (followAction h u n s)"
| "perform h Tick s = snd (tick h s)"
| "perform h (VoiceStateUpdates p) s = snd (VOICE_STATE_UPDATES h p s)"
| "perform h Start s = start s"
| "perform h Stop s = stop s"
| "perform h (UpdateSettings n) s = updateSettings n s"
| "perform h (Resume i) s = snd (resume h i s)"

inductive reachable :: "plugin \<Rightarrow> bool" where
  loaded: "reachable initial"
| step: "reachable s \<Longrightarrow> reachable (perform h op s)"

text \<open>The session invariant of the specification.\<close>

definition searchingHasTarget :: "plugin \<Rightarrow> bool" where
  "searchingHasTarget s = (isSearching s \<longrightarrow> followedUserId s \<noteq> None)"

text \<open>The menu action on the user who is followed is the unfollow.\<close>

fun unfollows :: "operation \<Rightarrow> plugin \<Rightarrow> bool" where
  "unfollows (MenuAction u n) s = (followedUserId s = Some u)"
| "unfollows op s = False"

text \<open>The variables of the session that the search loop reads and writes.\<close>

definition session :: "plugin \<Rightarrow> string option \<times> bool \<times> (string \<times> string) option" where
  "session s = (followedUserId s, isSearching s, searchInterval s)"

text \<open>The flag \<open>isSearching\<close> is set exactly when an interval is armed.\<close>

definition armed :: "plugin \<Rightarrow> bool" where
  "armed s = (isSearching s = (searchInterval s \<noteq> None))"

text \<open>The channel a suspended continuation of a join attempt is for.\<close>

fun target :: "cont \<Rightarrow> string option" where
  "target (PreloadGuildDataResumed c g d) = Some c"
| "target (Navigate c) = Some c"
| "target (Connect c) = Some c"
| "target k = None"

text \<open>
  What \<open>joinVoiceChannel h c\<close> adds to the state: the calls of \<open>preloadGuildData\<close>, and
  the continuation it leaves suspended (the navigate timer, or the awaited preload).
\<close>

definition preloadCalls :: "host \<Rightarrow> string \<Rightarrow> call list" where
  "preloadCalls h c = calls (snd (preloadGuildData h c initial))"

definition joinSuspended :: "host \<Rightarrow> string \<Rightarrow> int \<Rightarrow> wait \<times> cont" where
  "joinSuspended h c delay =
     (case fst (preloadGuildData h c initial) of
        Finished \<Rightarrow> (Timeout delay, Navigate c)
      | AwaitingPreload g d \<Rightarrow> (Settled, PreloadGuildDataResumed c g d))"

subsection \<open>Example hosts and inputs\<close>

text \<open>A host in which nothing is loaded, nobody is in a voice channel and no call fails.\<close>

definition quietHost :: host where
  "quietHost = \<lparr>getChannel = (\<lambda>c. Inr None), can = (\<lambda>p ch. Inr False), guildIds = Inr [],
     getGuild = (\<lambda>g. Inr False), getMember = (\<lambda>g u. Inr False),
     getVoiceStates = (\<lambda>g u. Inr False), getDefaultChannel = (\<lambda>g. Inr None),
     hasPreload = True, preload = (\<lambda>g d. Inr ()), restGet = (\<lambda>u. Inr None),
     getVoiceStateForUser = (\<lambda>u. Inr None), getVoiceChannelId = Inr None,
     getUser = (\<lambda>u. Inr None), toastShow = (\<lambda>t. Inr ()),
     selectVoiceChannel = (\<lambda>c. Inr ())\<rparr>"

text \<open>A guild channel, and a host in which it is loaded and every permission is granted.\<close>

definition lobby :: channel where
  "lobby = \<lparr>channel_id = ''chan1'', guild_id = Some ''g1'', isPrivate = Some (Inr False),
     isDM = None, isGroupDM = None\<rparr>"

definition openHost :: host where
  "openHost = quietHost\<lparr>getChannel := (\<lambda>c. Inr (Some lobby)), can := (\<lambda>p ch. Inr True),
     getDefaultChannel := (\<lambda>g. Inr (Some ''d1''))\<rparr>"

text \<open>A batch with one entry: the user \<open>u\<close> is now in the channel \<open>c\<close> (or in none).\<close>

definition moved :: "string \<Rightarrow> string option \<Rightarrow> payload" where
  "moved u c = \<lparr>voiceStates = Some (Array [\<lparr>userId = Some u, user_id = None, channelId = c\<rparr>]),
     voice_states = None\<rparr>"

text \<open>The user \<open>X\<close> is followed and the search loop for \<open>X\<close> is running.\<close>

definition searchingForX :: plugin where
  "searchingForX = initial\<lparr>followedUserId := Some ''X'',
     searchInterval := Some (''X'', ''x''), isSearching := True\<rparr>"

text \<open>A host in which every user is in the voice channel \<open>chan1\<close>, which is not loaded.\<close>

definition inChannelHost :: host where
  "inChannelHost = quietHost\<lparr>getVoiceStateForUser := (\<lambda>u. Inr (Some ''chan1''))\<rparr>"

text \<open>The guild \<open>g1\<close> is in the preload cache.\<close>

definition cachedG1 :: plugin where
  "cachedG1 = initial\<lparr>preloadedGuilds := {''g1''}\<rparr>"

text \<open>Hosts for the bulk preload: the REST answer names \<open>g1\<close>; the REST request fails and
  the user is a member of \<open>g1\<close> only; every preload is rejected.\<close>

definition restHost :: host where
  "restHost = openHost\<lparr>restGet := (\<lambda>u. Inr (Some [''g1'']))\<rparr>"

definition localHost :: host where
  "localHost = openHost\<lparr>restGet := (\<lambda>u. Inl Thrown), guildIds := Inr [''g1'', ''g2''],
     getGuild := (\<lambda>g. Inr True), getMember := (\<lambda>g u. Inr (g = ''g1''))\<rparr>"

definition rejectingHost :: host where
  "rejectingHost = openHost\<lparr>preload := (\<lambda>g d. Inl Thrown)\<rparr>"

text \<open>Hosts in which the voice connect call, or the voice-state lookup, throws.\<close>

definition brokenConnectHost :: host where
  "brokenConnectHost = openHost\<lparr>selectVoiceChannel := (\<lambda>c. Inl Thrown)\<rparr>"

definition brokenVoiceStateHost :: host where
  "brokenVoiceStateHost = quietHost\<lparr>getVoiceStateForUser := (\<lambda>u. Inl Thrown)\<rparr>"

text \<open>
  While \<open>X\<close> is searched for, \<open>X\<close> is reported in \<open>chan1\<close> (which schedules a join),
  and then the controller is stopped.
\<close>

definition stoppedWhileJoining :: plugin where
  "stoppedWhileJoining =
     stop (snd (VOICE_STATE_UPDATES quietHost (moved ''X'' (Some ''chan1'')) searchingForX))"

text \<open>A batch with two entries: \<open>X\<close> is in \<open>chan1\<close>, then in \<open>chan2\<close>.\<close>

definition movedTwice :: payload where
  "movedTwice = \<lparr>voiceStates = Some (Array
       [\<lparr>userId = Some ''X'', user_id = None, channelId = Some ''chan1''\<rparr>,
        \<lparr>userId = Some ''X'', user_id = None, channelId = Some ''chan2''\<rparr>]),
     voice_states = None\<rparr>"

section \<open>Properties\<close>

subsection \<open>Frame lemmas\<close>

lemma called_simps [simp]:
  "calls (called c s) = calls s @ [c]"
  "pending (called c s) = pending s"
  "followedUserId (called c s) = followedUserId s"
  "lastFollowedChannelId (called c s) = lastFollowedChannelId s"
  "preloadedGuilds (called c s) = preloadedGuilds s"
  "searchInterval (called c s) = searchInterval s"
  "isSearching (called c s) = isSearching s"
  "disconnectFollow (called c s) = disconnectFollow s"
  "preloadDelay (called c s) = preloadDelay s"
  by (simp_all add: called_def)

lemma suspend_simps [simp]:
  "calls (suspend w k s) = calls s"
  "pending (suspend w k s) = pending s @ [(w, k)]"
  "followedUserId (suspend w k s) = followedUserId s"
  "lastFollowedChannelId (suspend w k s) = lastFollowedChannelId s"
  "preloadedGuilds (suspend w k s) = preloadedGuilds s"
  "searchInterval (suspend w k s) = searchInterval s"
  "isSearching (suspend w k s) = isSearching s"
  "disconnectFollow (suspend w k s) = disconnectFollow s"
  "preloadDelay (suspend w k s) = preloadDelay s"
  by (simp_all add: suspend_def)

lemma stopSearching_simps [simp]:
  "calls (stopSearching s) = calls s"
  "pending (stopSearching s) = pending s"
  "followedUserId (stopSearching s) = followedUserId s"
  "lastFollowedChannelId (stopSearching s) = lastFollowedChannelId s"
  "preloadedGuilds (stopSearching s) = preloadedGuilds s"
  "searchInterval (stopSearching s) = None"
  "isSearching (stopSearching s) = False"
  "disconnectFollow (stopSearching s) = disconnectFollow s"
  "preloadDelay (stopSearching s) = preloadDelay s"
  by (simp_all add: stopSearching_def)

text \<open>\<open>preloadGuildData\<close> reads nothing of the controller state and only adds calls.\<close>

lemma preloadGuildData_frame:
  "preloadGuildData h c s =
     (fst (preloadGuildData h c initial),
      s\<lparr>calls := calls s @ calls (snd (preloadGuildData h c initial))\<rparr>)"
  by (simp add: preloadGuildData_def called_def initial_def
      split: sum.splits option.splits)

lemma joinVoiceChannel_simps [simp]:
  "lastFollowedChannelId (joinVoiceChannel h c s) = Some c"
  "followedUserId (joinVoiceChannel h c s) = followedUserId s"
  "preloadedGuilds (joinVoiceChannel h c s) = preloadedGuilds s"
  "searchInterval (joinVoiceChannel h c s) = searchInterval s"
  "isSearching (joinVoiceChannel h c s) = isSearching s"
  "disconnectFollow (joinVoiceChannel h c s) = disconnectFollow s"
  "preloadDelay (joinVoiceChannel h c s) = preloadDelay s"
  by (simp_all add: joinVoiceChannel_def preloadCompleted_def
      preloadGuildData_frame [of h c "s\<lparr>lastFollowedChannelId := Some c\<rparr>"]
      split: progress.splits)

lemma joinVoiceChannel_eq:
  "joinVoiceChannel h c s
     = s\<lparr>lastFollowedChannelId := Some c,
         pending := pending s @ [joinSuspended h c (preloadDelay s)],
         calls := calls s @ preloadCalls h c\<rparr>"
  by (simp add: joinVoiceChannel_def preloadCompleted_def preloadCalls_def joinSuspended_def
      suspend_def preloadGuildData_frame [of h c "s\<lparr>lastFollowedChannelId := Some c\<rparr>"]
      split: progress.splits)

lemma target_joinSuspended [simp]: "target (snd (joinSuspended h c delay)) = Some c"
  by (simp add: joinSuspended_def split: progress.splits)

lemma preloadLoop_preloadedGuilds [simp]:
  "preloadedGuilds (preloadLoop h gs s) = preloadedGuilds s"
  by (induction gs arbitrary: s) (auto split: sum.splits option.splits)

lemma showToast_simps [simp]:
  "calls (snd (showToast h t s)) = calls s @ [ToastShow t]"
  "pending (snd (showToast h t s)) = pending s"
  "followedUserId (snd (showToast h t s)) = followedUserId s"
  "lastFollowedChannelId (snd (showToast h t s)) = lastFollowedChannelId s"
  "preloadedGuilds (snd (showToast h t s)) = preloadedGuilds s"
  "searchInterval (snd (showToast h t s)) = searchInterval s"
  "isSearching (snd (showToast h t s)) = isSearching s"
  "disconnectFollow (snd (showToast h t s)) = disconnectFollow s"
  "fst (showToast h t s) = toastShow h t"
  by (simp_all add: showToast_def)

text \<open>An entry for the followed user that carries a channel leaves that channel recorded.\<close>

lemma voiceStateUpdate_present:
  assumes "followedUserId s = Some u" and "nullish (userId vs) (user_id vs) = Some u"
    and "channelId vs = Some c" and "c \<noteq> []"
  shows "lastFollowedChannelId (snd (voiceStateUpdate h vs s)) = Some c"
    and "followedUserId (snd (voiceStateUpdate h vs s)) = Some u"
  using assms
  by (auto simp: voiceStateUpdate_def showToast_def Let_def split: sum.splits)

lemma voiceStateUpdate_same:
  assumes "followedUserId s = Some u" and "nullish (userId vs) (user_id vs) = Some u"
    and "channelId vs = Some c" and "c \<noteq> []" and "lastFollowedChannelId s = Some c"
  shows "voiceStateUpdate h vs s = (Inr Next, s)"
  using assms by (simp add: voiceStateUpdate_def)

subsection \<open>Permission oracle\<close>

text \<open>
  C4.  When the channel record is not loaded, \<open>canViewChannel\<close> answers yes and the
  navigate stage switches the view, while \<open>canJoinChannel\<close> answers no and the connect
  stage does nothing.  Whenever the connect stage issues its call, the channel record is
  loaded and either the channel is private or both the view and the connect permission
  were confirmed.
\<close>

theorem view_is_optimistic_connect_is_conservative:
  "(c \<noteq> [] \<and> getChannel h c = Inr None \<longrightarrow>
      canViewChannel h c = Inr True \<and> canJoinChannel h c = Inr False
      \<and> calls (snd (navigateStage h c s)) = calls s @ [TransitionToChannel c]
      \<and> connectStage h c s = (Inr (), s))
   \<and> (calls (snd (connectStage h c s)) \<noteq> calls s \<longrightarrow>
        (\<exists>ch. getChannel h c = Inr (Some ch)
           \<and> (channelIsPrivate ch = Inr True
               \<or> can h VIEW_CHANNEL ch = Inr True \<and> can h CONNECT ch = Inr True)))"
  by (auto simp: canViewChannel_def canJoinChannel_def navigateStage_def connectStage_def
      split: sum.splits option.splits bool.splits if_splits)

theorem view_is_optimistic_connect_is_conservative_witness:
  "canViewChannel quietHost ''chan1'' = Inr True
   \<and> canJoinChannel quietHost ''chan1'' = Inr False
   \<and> calls (snd (navigateStage quietHost ''chan1'' initial)) = [TransitionToChannel ''chan1'']
   \<and> connectStage quietHost ''chan1'' initial = (Inr (), initial)
   \<and> calls (snd (connectStage openHost ''chan1'' initial)) \<noteq> calls initial
   \<and> (\<exists>ch. getChannel openHost ''chan1'' = Inr (Some ch)
         \<and> (channelIsPrivate ch = Inr True
             \<or> can openHost VIEW_CHANNEL ch = Inr True \<and> can openHost CONNECT ch = Inr True))"
proof -
  have unloaded: "''chan1'' \<noteq> [] \<and> getChannel quietHost ''chan1'' = Inr None"
    by (simp add: quietHost_def)
  have connects: "calls (snd (connectStage openHost ''chan1'' initial)) \<noteq> calls initial"
    by (simp add: connectStage_def canJoinChannel_def channelIsPrivate_def openHost_def
        quietHost_def lobby_def initial_def)
  from unloaded connects
    view_is_optimistic_connect_is_conservative [of "''chan1''" quietHost initial]
    view_is_optimistic_connect_is_conservative [of "''chan1''" openHost initial]
  show ?thesis by (simp add: initial_def)
qed

subsection \<open>Location events\<close>

text \<open>
  C3.  A batch with one entry for the followed user whose channel is the one already
  recorded in \<open>lastFollowedChannelId\<close> changes nothing: the state, the calls made and the
  suspended continuations stay as they are.  And after any first delivery of such an
  entry, whatever the host did, delivering it again changes nothing.
\<close>

theorem repeated_location_event_is_noop:
  assumes "followedUserId s = Some u" and "u \<noteq> []"
    and "nullish (voiceStates p) (voice_states p) = Some (Array [vs])"
    and "nullish (userId vs) (user_id vs) = Some u"
    and "channelId vs = Some c" and "c \<noteq> []"
  shows "(lastFollowedChannelId s = Some c \<longrightarrow> VOICE_STATE_UPDATES h p s = (Inr (), s))
    \<and> VOICE_STATE_UPDATES h' p (snd (VOICE_STATE_UPDATES h p s))
        = (Inr (), snd (VOICE_STATE_UPDATES h p s))"
proof -
  have same: "VOICE_STATE_UPDATES k p t = (Inr (), t)"
    if "followedUserId t = Some u" and "lastFollowedChannelId t = Some c" for k t
    using that assms voiceStateUpdate_same [of t u vs c k]
    by (simp add: VOICE_STATE_UPDATES_def)
  let ?s' = "snd (VOICE_STATE_UPDATES h p s)"
  have "?s' = snd (voiceStateUpdate h vs s)"
    using assms by (simp add: VOICE_STATE_UPDATES_def split: sum.splits prod.splits flow.splits)
  then have "followedUserId ?s' = Some u" and "lastFollowedChannelId ?s' = Some c"
    using voiceStateUpdate_present [of s u vs c h] assms by simp_all
  then have "VOICE_STATE_UPDATES h' p ?s' = (Inr (), ?s')" by (rule same)
  moreover have "lastFollowedChannelId s = Some c \<longrightarrow> VOICE_STATE_UPDATES h p s = (Inr (), s)"
    using same [of s h] assms by simp
  ultimately show ?thesis by simp
qed

theorem repeated_location_event_is_noop_witness:
  "VOICE_STATE_UPDATES openHost (moved ''X'' (Some ''chan1''))
     (initial\<lparr>followedUserId := Some ''X'', lastFollowedChannelId := Some ''chan1''\<rparr>)
   = (Inr (), initial\<lparr>followedUserId := Some ''X'', lastFollowedChannelId := Some ''chan1''\<rparr>)
   \<and> VOICE_STATE_UPDATES quietHost (moved ''X'' (Some ''chan1''))
       (snd (VOICE_STATE_UPDATES openHost (moved ''X'' (Some ''chan1''))
          (initial\<lparr>followedUserId := Some ''X''\<rparr>)))
     = (Inr (), snd (VOICE_STATE_UPDATES openHost (moved ''X'' (Some ''chan1''))
          (initial\<lparr>followedUserId := Some ''X''\<rparr>)))"
  using repeated_location_event_is_noop
      [of "initial\<lparr>followedUserId := Some ''X'', lastFollowedChannelId := Some ''chan1''\<rparr>"
        "''X''" "moved ''X'' (Some ''chan1'')"
        "\<lparr>userId = Some ''X'', user_id = None, channelId = Some ''chan1''\<rparr>" "''chan1''"
        openHost quietHost]
    repeated_location_event_is_noop
      [of "initial\<lparr>followedUserId := Some ''X''\<rparr>"
        "''X''" "moved ''X'' (Some ''chan1'')"
        "\<lparr>userId = Some ''X'', user_id = None, channelId = Some ''chan1''\<rparr>" "''chan1''"
        openHost quietHost]
  by (simp add: moved_def)

text \<open>
  C2.  An entry for the followed user without a channel, handled in a host whose calls
  return: the search loop is started (the flag is set and the interval armed for the
  followed user, after the "searching" toast).  The local user is disconnected and
  \<open>lastFollowedChannelId\<close> cleared exactly when \<open>disconnectFollow\<close> is on and the local
  user is in a voice channel whose id is \<open>lastFollowedChannelId\<close>; otherwise no
  disconnect call is made and \<open>lastFollowedChannelId\<close> is kept.  In particular nothing is
  disconnected when the flag is off.
\<close>

theorem target_left_starts_search_and_disconnects_by_flag:
  assumes "followedUserId s = Some u" and "nullish (userId vs) (user_id vs) = Some u"
    and "\<not> truthy (channelId vs)"
    and "getUser h u = Inr n" and "toastShow h (Searching (usernameOr n)) = Inr ()"
    and "getVoiceChannelId h = Inr myChanId" and "selectVoiceChannel h None = Inr ()"
  shows "isSearching (snd (voiceStateUpdate h vs s))
    \<and> searchInterval (snd (voiceStateUpdate h vs s)) = Some (u, usernameOr n)
    \<and> calls (snd (voiceStateUpdate h vs s))
        = calls s @ ToastShow (Searching (usernameOr n))
            # (if disconnectFollow s \<and> truthy myChanId \<and> myChanId = lastFollowedChannelId s
               then [SelectVoiceChannel None] else [])
    \<and> lastFollowedChannelId (snd (voiceStateUpdate h vs s))
        = (if disconnectFollow s \<and> truthy myChanId \<and> myChanId = lastFollowedChannelId s
           then None else lastFollowedChannelId s)"
  using assms
  by (auto simp: voiceStateUpdate_def startSearching_def showToast_def stopSearching_def called_def)

theorem target_left_starts_search_and_disconnects_by_flag_witness:
  "isSearching (snd (voiceStateUpdate (quietHost\<lparr>getVoiceChannelId := Inr (Some ''chan1'')\<rparr>)
       \<lparr>userId = Some ''X'', user_id = None, channelId = None\<rparr>
       (initial\<lparr>disconnectFollow := True, followedUserId := Some ''X'',
          lastFollowedChannelId := Some ''chan1''\<rparr>)))
   \<and> calls (snd (voiceStateUpdate (quietHost\<lparr>getVoiceChannelId := Inr (Some ''chan1'')\<rparr>)
       \<lparr>userId = Some ''X'', user_id = None, channelId = None\<rparr>
       (initial\<lparr>disconnectFollow := True, followedUserId := Some ''X'',
          lastFollowedChannelId := Some ''chan1''\<rparr>)))
     = [ToastShow (Searching ''user''), SelectVoiceChannel None]
   \<and> lastFollowedChannelId (snd (voiceStateUpdate (quietHost\<lparr>getVoiceChannelId := Inr (Some ''chan1'')\<rparr>)
       \<lparr>userId = Some ''X'', user_id = None, channelId = None\<rparr>
       (initial\<lparr>disconnectFollow := True, followedUserId := Some ''X'',
          lastFollowedChannelId := Some ''chan1''\<rparr>))) = None"
  using target_left_starts_search_and_disconnects_by_flag
      [of "initial\<lparr>disconnectFollow := True, followedUserId := Some ''X'',
             lastFollowedChannelId := Some ''chan1''\<rparr>"
        "''X''" "\<lparr>userId = Some ''X'', user_id = None, channelId = None\<rparr>"
        "quietHost\<lparr>getVoiceChannelId := Inr (Some ''chan1'')\<rparr>" None "Some ''chan1''"]
  by (simp add: quietHost_def initial_def usernameOr_def)

subsection \<open>Unfollowing\<close>

text \<open>
  C6.  The menu action on the followed user clears \<open>followedUserId\<close> and
  \<open>lastFollowedChannelId\<close> and does nothing else: it makes no call (so none on the voice
  connection) and suspends nothing.  The next firing of the search interval, in any host,
  makes no call either (no voice-state query), schedules nothing and disarms the interval,
  so that every later firing finds nothing to do.
\<close>

theorem unfollow_clears_session_and_next_tick_stops_search:
  assumes "followedUserId s = Some u"
  shows "followAction h u n s = (Inr (), s\<lparr>followedUserId := None, lastFollowedChannelId := None\<rparr>)
    \<and> fst (tick h' (snd (followAction h u n s))) = Inr ()
    \<and> calls (snd (tick h' (snd (followAction h u n s)))) = calls s
    \<and> pending (snd (tick h' (snd (followAction h u n s)))) = pending s
    \<and> searchInterval (snd (tick h' (snd (followAction h u n s)))) = None
    \<and> (searchInterval s \<noteq> None \<longrightarrow> \<not> isSearching (snd (tick h' (snd (followAction h u n s)))))
    \<and> tick h'' (snd (tick h' (snd (followAction h u n s))))
        = (Inr (), snd (tick h' (snd (followAction h u n s))))"
  using assms
  by (auto simp: followAction_def tick_def stopSearching_def split: option.splits)

theorem unfollow_clears_session_and_next_tick_stops_search_witness:
  "followedUserId searchingForX = Some ''X'' \<and> isSearching searchingForX
   \<and> followAction openHost ''X'' ''x'' searchingForX
       = (Inr (), searchingForX\<lparr>followedUserId := None, lastFollowedChannelId := None\<rparr>)
   \<and> calls (snd (tick openHost (snd (followAction openHost ''X'' ''x'' searchingForX))))
       = calls searchingForX
   \<and> searchInterval (snd (tick openHost (snd (followAction openHost ''X'' ''x'' searchingForX)))) = None
   \<and> \<not> isSearching (snd (tick openHost (snd (followAction openHost ''X'' ''x'' searchingForX))))"
proof -
  have followed: "followedUserId searchingForX = Some ''X''"
    and armed: "searchInterval searchingForX \<noteq> None"
    and searching: "isSearching searchingForX"
    by (simp_all add: searchingForX_def initial_def)
  from followed armed searching
    unfollow_clears_session_and_next_tick_stops_search
      [OF followed, of openHost "''x''" openHost openHost]
  show ?thesis by blast
qed

subsection \<open>The session invariant\<close>

text \<open>\<open>isSearching\<close> and the armed interval go together in every operation.\<close>

lemma session_simps [simp]:
  "session (called c s) = session s"
  "session (suspend w k s) = session s"
  "session (joinVoiceChannel h ch s) = session s"
  "session (snd (showToast h t s)) = session s"
  "session (s\<lparr>lastFollowedChannelId := l\<rparr>) = session s"
  "session (s\<lparr>calls := cs\<rparr>) = session s"
  "session (s\<lparr>pending := ps\<rparr>) = session s"
  "session (s\<lparr>preloadedGuilds := G\<rparr>) = session s"
  by (simp_all add: session_def)

lemma preloadLoop_session [simp]: "session (preloadLoop h gs s) = session s"
  by (induction gs arbitrary: s) (auto split: sum.splits option.splits)

lemma run_session [simp]: "session (snd (run h k s)) = session s"
  by (cases k)
    (auto simp: preloadGuildDataResumed_def preloadCompleted_def navigateStage_def
      connectStage_def mutualGuildsFetched_def mutualGuildPreloaded_def mutualGuildPaused_def
      split: sum.splits option.splits)

lemma resume_session [simp]: "session (snd (resume h i s)) = session s"
  by (simp add: resume_def)

lemma armed_session: "session s' = session s \<Longrightarrow> armed s' = armed s"
  by (auto simp: armed_def session_def)

lemma startSearching_armed [simp]: "armed (snd (startSearching h u n s))"
  by (auto simp: startSearching_def armed_def showToast_def split: sum.splits)

lemma startSearching_followed [simp]:
  "followedUserId (snd (startSearching h u n s)) = followedUserId s"
  by (auto simp: startSearching_def showToast_def split: sum.splits)

lemma tick_armed: "armed s \<Longrightarrow> armed (snd (tick h s))"
  by (auto simp: tick_def armed_def checkUserInVoiceChannel_def showToast_def
      split: option.splits sum.splits prod.splits if_splits)

lemma tick_followed [simp]: "followedUserId (snd (tick h s)) = followedUserId s"
  by (auto simp: tick_def checkUserInVoiceChannel_def showToast_def
      split: option.splits sum.splits prod.splits if_splits)

lemma followAction_armed: "armed s \<Longrightarrow> armed (snd (followAction h u n s))"
  by (auto simp: followAction_def Let_def preloadMutualGuilds_def armed_def startSearching_def showToast_def
      split: sum.splits option.splits)

lemma voiceStateUpdate_armed: "armed s \<Longrightarrow> armed (snd (voiceStateUpdate h vs s))"
  by (auto simp: voiceStateUpdate_def Let_def armed_def startSearching_def showToast_def
      split: sum.splits option.splits prod.splits if_splits)

lemma voiceStateUpdate_followed [simp]:
  "followedUserId (snd (voiceStateUpdate h vs s)) = followedUserId s"
  by (auto simp: voiceStateUpdate_def Let_def startSearching_def showToast_def
      split: sum.splits option.splits prod.splits if_splits)

lemma voiceStateLoop_armed: "armed s \<Longrightarrow> armed (snd (voiceStateLoop h us s))"
proof (induction us arbitrary: s)
  case Nil
  then show ?case by simp
next
  case (Cons vs us)
  obtain r s1 where eq: "voiceStateUpdate h vs s = (r, s1)"
    by (cases "voiceStateUpdate h vs s")
  have "armed s1"
    using voiceStateUpdate_armed [OF Cons.prems, of h vs] eq by simp
  then show ?case
    using Cons.IH [of s1] eq by (auto split: sum.splits flow.splits)
qed

lemma voiceStateLoop_followed [simp]:
  "followedUserId (snd (voiceStateLoop h us s)) = followedUserId s"
proof (induction us arbitrary: s)
  case Nil
  then show ?case by simp
next
  case (Cons vs us)
  obtain r s1 where eq: "voiceStateUpdate h vs s = (r, s1)"
    by (cases "voiceStateUpdate h vs s")
  have "followedUserId s1 = followedUserId s"
    using voiceStateUpdate_followed [of h vs s] eq by simp
  then show ?case
    using Cons.IH [of s1] eq by (auto split: sum.splits flow.splits)
qed

lemma handler_armed: "armed s \<Longrightarrow> armed (snd (VOICE_STATE_UPDATES h p s))"
  by (auto simp: VOICE_STATE_UPDATES_def voiceStateLoop_armed split: option.splits updates.splits)

lemma handler_followed [simp]:
  "followedUserId (snd (VOICE_STATE_UPDATES h p s)) = followedUserId s"
  by (auto simp: VOICE_STATE_UPDATES_def split: option.splits updates.splits)

lemma handler_target:
  "searchingHasTarget s \<Longrightarrow> searchingHasTarget (snd (VOICE_STATE_UPDATES h p s))"
proof (cases "truthy (followedUserId s)")
  case True
  then have "followedUserId (snd (VOICE_STATE_UPDATES h p s)) \<noteq> None"
    by (cases "followedUserId s") simp_all
  then show ?thesis by (simp add: searchingHasTarget_def del: handler_followed)
next
  case False
  assume "searchingHasTarget s"
  with False show ?thesis by (simp add: VOICE_STATE_UPDATES_def)
qed

lemma perform_armed: "armed s \<Longrightarrow> armed (perform h op s)"
proof (cases op)
  case (Resume i)
  assume "armed s"
  then show ?thesis using Resume armed_session [of "snd (resume h i s)" s] by simp
next
  case Start
  show ?thesis unfolding Start by (simp add: start_def armed_def)
next
  case Stop
  show ?thesis unfolding Stop by (simp add: stop_def armed_def)
next
  case (UpdateSettings n)
  assume "armed s"
  then show ?thesis unfolding UpdateSettings by (simp add: updateSettings_def armed_def)
qed (simp_all add: tick_armed followAction_armed handler_armed)

lemma reachable_armed: "reachable s \<Longrightarrow> armed s"
proof (induction rule: reachable.induct)
  case loaded
  show ?case by (simp add: armed_def initial_def)
next
  case (step s h op)
  then show ?case by (simp add: perform_armed)
qed

lemma tick_target: "armed s \<Longrightarrow> searchingHasTarget (snd (tick h s))"
  by (auto simp: tick_def armed_def searchingHasTarget_def checkUserInVoiceChannel_def showToast_def
      split: option.splits sum.splits prod.splits if_splits)

lemma perform_target:
  assumes "searchingHasTarget s" and "\<not> unfollows op s" and "armed s"
  shows "searchingHasTarget (perform h op s)"
proof (cases op)
  case (MenuAction u n)
  then show ?thesis using assms
    by (auto simp: followAction_def Let_def searchingHasTarget_def preloadMutualGuilds_def
        startSearching_def showToast_def split: sum.splits option.splits)
next
  case Tick
  then show ?thesis using assms by (simp add: tick_target)
next
  case (VoiceStateUpdates p)
  then show ?thesis using assms by (simp add: handler_target)
next
  case (Resume i)
  have "session (snd (resume h i s)) = session s" by simp
  then show ?thesis using Resume assms by (auto simp: searchingHasTarget_def session_def)
qed (use assms in \<open>auto simp: start_def stop_def updateSettings_def searchingHasTarget_def\<close>)

text \<open>
  C7, as amended.  In every reachable state the flag \<open>isSearching\<close> is set exactly when
  the search interval is armed.  "Searching implies a followed user" is kept by every
  operation other than the unfollow (follow, tick, voice-state batch, start, stop,
  settings update, resumed continuation), and it holds after every firing of the search
  interval, also one that follows an unfollow.
\<close>

theorem searching_has_target_except_after_unfollow:
  assumes "reachable s"
  shows "isSearching s = (searchInterval s \<noteq> None)
    \<and> (searchingHasTarget s \<and> \<not> unfollows op s \<longrightarrow> searchingHasTarget (perform h op s))
    \<and> searchingHasTarget (perform h Tick s)"
  using reachable_armed [OF assms] perform_target [of s op h] tick_target [of s h]
  by (auto simp: armed_def)

theorem searching_has_target_except_after_unfollow_witness:
  "reachable (perform quietHost (MenuAction ''X'' ''x'') initial)
   \<and> searchingHasTarget (perform quietHost (MenuAction ''X'' ''x'') initial)
   \<and> \<not> unfollows Stop (perform quietHost (MenuAction ''X'' ''x'') initial)
   \<and> isSearching (perform quietHost (MenuAction ''X'' ''x'') initial)
   \<and> searchingHasTarget (perform quietHost Stop (perform quietHost (MenuAction ''X'' ''x'') initial))
   \<and> searchingHasTarget (perform quietHost Tick (perform quietHost (MenuAction ''X'' ''x'') initial))"
proof -
  have reach: "reachable (perform quietHost (MenuAction ''X'' ''x'') initial)"
    by (intro reachable.intros)
  have now: "searchingHasTarget (perform quietHost (MenuAction ''X'' ''x'') initial)"
    and searching: "isSearching (perform quietHost (MenuAction ''X'' ''x'') initial)"
    by (simp_all add: searchingHasTarget_def followAction_def Let_def preloadMutualGuilds_def
        startSearching_def showToast_def quietHost_def initial_def)
  have other: "\<not> unfollows Stop (perform quietHost (MenuAction ''X'' ''x'') initial)"
    by simp
  from reach now searching other
    searching_has_target_except_after_unfollow [OF reach, of Stop quietHost]
  show ?thesis by blast
qed

text \<open>
  C7, as stated, fails: following a user who is in no voice channel starts the search, and
  the unfollow clears \<open>followedUserId\<close> without stopping it.
\<close>

theorem searching_without_target_counterexample:
  "reachable (perform quietHost (MenuAction ''X'' ''x'')
      (perform quietHost (MenuAction ''X'' ''x'') initial))
   \<and> isSearching (perform quietHost (MenuAction ''X'' ''x'')
      (perform quietHost (MenuAction ''X'' ''x'') initial))
   \<and> followedUserId (perform quietHost (MenuAction ''X'' ''x'')
      (perform quietHost (MenuAction ''X'' ''x'') initial)) = None"
proof -
  have "reachable (perform quietHost (MenuAction ''X'' ''x'')
      (perform quietHost (MenuAction ''X'' ''x'') initial))"
    by (intro reachable.intros)
  then show ?thesis
    by (simp add: followAction_def Let_def preloadMutualGuilds_def startSearching_def
        showToast_def quietHost_def initial_def stopSearching_def called_def suspend_def)
qed

subsection \<open>Following another user\<close>

text \<open>
  C5, as amended.  The follow branch of the menu action sets \<open>followedUserId\<close> to the new
  user and resets \<open>lastFollowedChannelId\<close> before anything else, so its outcome does not
  depend on the user followed before or on the channel recorded for them.  The search
  loop of the previous user is stopped by the action itself only when the new user is in
  no voice channel (\<open>startSearching\<close> stops it before arming the new one).  When the new
  user is found in a channel, the previous interval stays armed; its next firing stops it
  without a voice-state query or a join.
\<close>

theorem follow_replaces_session_search_stops_cooperatively:
  assumes "followedUserId s \<noteq> Some b"
  shows "followAction h b n s
      = followAction h b n (s\<lparr>followedUserId := None, lastFollowedChannelId := None\<rparr>)
    \<and> followedUserId (snd (followAction h b n s)) = Some b
    \<and> (\<forall>c. getVoiceStateForUser h b = Inr c \<and> \<not> truthy c \<longrightarrow>
          searchInterval (snd (followAction h b n s)) = Some (b, n)
          \<or> searchInterval (snd (followAction h b n s)) = None)
    \<and> (\<forall>a m. searchInterval (snd (followAction h b n s)) = Some (a, m) \<and> a \<noteq> b \<longrightarrow>
          tick h' (snd (followAction h b n s))
            = (Inr (), stopSearching (snd (followAction h b n s))))"
proof -
  have one: "followAction h b n s
      = followAction h b n (s\<lparr>followedUserId := None, lastFollowedChannelId := None\<rparr>)"
    using assms by (simp add: followAction_def)
  have two: "followedUserId (snd (followAction h b n s)) = Some b"
    using assms
    by (auto simp: followAction_def Let_def preloadMutualGuilds_def startSearching_def
        showToast_def split: sum.splits option.splits)
  have three: "searchInterval (snd (followAction h b n s)) = Some (b, n)
          \<or> searchInterval (snd (followAction h b n s)) = None"
    if "getVoiceStateForUser h b = Inr c \<and> \<not> truthy c" for c
    using assms that
    by (auto simp: followAction_def Let_def preloadMutualGuilds_def startSearching_def
        showToast_def split: sum.splits option.splits)
  have four: "tick h' (snd (followAction h b n s))
            = (Inr (), stopSearching (snd (followAction h b n s)))"
    if "searchInterval (snd (followAction h b n s)) = Some (a, m) \<and> a \<noteq> b" for a m
    using that two by (auto simp: tick_def)
  from one two three four show ?thesis by blast
qed

theorem follow_replaces_session_search_stops_cooperatively_witness:
  "followedUserId searchingForX \<noteq> Some ''Y''
   \<and> followedUserId (snd (followAction quietHost ''Y'' ''y'' searchingForX)) = Some ''Y''
   \<and> (searchInterval (snd (followAction quietHost ''Y'' ''y'' searchingForX)) = Some (''Y'', ''y'')
        \<or> searchInterval (snd (followAction quietHost ''Y'' ''y'' searchingForX)) = None)
   \<and> searchInterval (snd (followAction inChannelHost ''Y'' ''y'' searchingForX)) = Some (''X'', ''x'')
   \<and> tick openHost (snd (followAction inChannelHost ''Y'' ''y'' searchingForX))
       = (Inr (), stopSearching (snd (followAction inChannelHost ''Y'' ''y'' searchingForX)))"
proof -
  have other: "followedUserId searchingForX \<noteq> Some ''Y''"
    by (simp add: searchingForX_def initial_def)
  have absent: "getVoiceStateForUser quietHost ''Y'' = Inr None \<and> \<not> truthy None"
    by (simp add: quietHost_def)
  have still: "searchInterval (snd (followAction inChannelHost ''Y'' ''y'' searchingForX))
      = Some (''X'', ''x'') \<and> ''X'' \<noteq> ''Y''"
    by (simp add: followAction_def Let_def preloadMutualGuilds_def inChannelHost_def
        quietHost_def searchingForX_def initial_def)
  note searched =
    follow_replaces_session_search_stops_cooperatively [OF other, of quietHost "''y''" openHost]
  note joined =
    follow_replaces_session_search_stops_cooperatively [OF other, of inChannelHost "''y''" openHost]
  show ?thesis
    by (intro conjI)
      (rule other searched [THEN conjunct2, THEN conjunct1]
        searched [THEN conjunct2, THEN conjunct2, THEN conjunct1, rule_format, OF absent]
        still [THEN conjunct1]
        joined [THEN conjunct2, THEN conjunct2, THEN conjunct2, rule_format, OF still])+
qed

text \<open>
  C5, as stated, fails: \<open>X\<close> is followed and searched for, then \<open>Y\<close>, who is in
  \<open>chan1\<close>, is followed.  The join for \<open>Y\<close> is scheduled while the search for \<open>X\<close> is
  still armed.
\<close>

theorem follow_leaves_previous_search_armed_counterexample:
  "isSearching (snd (followAction inChannelHost ''Y'' ''y'' searchingForX))
   \<and> searchInterval (snd (followAction inChannelHost ''Y'' ''y'' searchingForX)) = Some (''X'', ''x'')
   \<and> lastFollowedChannelId (snd (followAction inChannelHost ''Y'' ''y'' searchingForX)) = Some ''chan1''
   \<and> pending (snd (followAction inChannelHost ''Y'' ''y'' searchingForX))
       = [(Settled, MutualGuildsFetched ''Y''), (Timeout 300, Navigate ''chan1'')]"
  by (simp add: followAction_def Let_def preloadMutualGuilds_def showToast_def joinVoiceChannel_def
      preloadGuildData_def preloadCompleted_def inChannelHost_def quietHost_def searchingForX_def
      initial_def called_def suspend_def)

subsection \<open>Preload cache\<close>

text \<open>
  C8, as amended.  The loop over the mutual guilds skips a guild that is in
  \<open>preloadedGuilds\<close>, and a guild is added to the set only when its preload has succeeded:
  a rejected preload leaves the set as it was.  \<open>joinVoiceChannel\<close> and the rest of
  \<open>preloadGuildData\<close> neither read nor change the set.  Start and stop empty it.
\<close>

theorem cache_guards_bulk_preload_only:
  "(g \<in> preloadedGuilds s \<longrightarrow> preloadLoop h (g # gs) s = preloadLoop h gs s)
   \<and> preloadedGuilds (mutualGuildPreloaded h g d gs s)
       = (if preload h g d = Inr () then insert g (preloadedGuilds s) else preloadedGuilds s)
   \<and> preloadedGuilds (joinVoiceChannel h c s) = preloadedGuilds s
   \<and> preloadedGuilds (preloadGuildDataResumed c g s) = preloadedGuilds s
   \<and> joinVoiceChannel h c (s\<lparr>preloadedGuilds := G\<rparr>)
       = (joinVoiceChannel h c s)\<lparr>preloadedGuilds := G\<rparr>
   \<and> preloadedGuilds (start s) = {} \<and> preloadedGuilds (stop s) = {}"
  by (auto simp: mutualGuildPreloaded_def start_def stop_def preloadGuildDataResumed_def
      preloadCompleted_def joinVoiceChannel_def preloadGuildData_def called_def suspend_def
      split: sum.splits option.splits)

theorem cache_guards_bulk_preload_only_witness:
  "''g1'' \<in> preloadedGuilds cachedG1
   \<and> preloadLoop openHost [''g1''] cachedG1 = preloadLoop openHost [] cachedG1
   \<and> preloadedGuilds (mutualGuildPreloaded openHost ''g1'' ''d1'' [] initial)
       = (if preload openHost ''g1'' ''d1'' = Inr () then insert ''g1'' (preloadedGuilds initial)
          else preloadedGuilds initial)
   \<and> preloadedGuilds (stop cachedG1) = {}"
proof -
  have cached: "''g1'' \<in> preloadedGuilds cachedG1"
    by (simp add: cachedG1_def)
  from cached
    cache_guards_bulk_preload_only [of "''g1''" cachedG1 openHost "[]" "''d1''" "''chan1''" "{}"]
    cache_guards_bulk_preload_only [of "''g1''" initial openHost "[]" "''d1''" "''chan1''" "{}"]
  show ?thesis by blast
qed

text \<open>
  C8, as stated, fails twice: joining a channel of a guild that is in the cache preloads
  the guild again, and a guild whose preload was rejected is not marked.
\<close>

theorem preload_cache_counterexample:
  "''g1'' \<in> preloadedGuilds cachedG1
   \<and> calls (joinVoiceChannel openHost ''chan1'' cachedG1)
       = [Preload ''g1'' ''d1'']
   \<and> preloadLoop openHost [''g1''] initial
       = suspend Settled (MutualGuildPreloaded ''g1'' ''d1'' []) (called (Preload ''g1'' ''d1'') initial)
   \<and> ''g1'' \<notin> preloadedGuilds (mutualGuildPreloaded rejectingHost
         ''g1'' ''d1'' [] (preloadLoop openHost [''g1''] initial))"
  by (simp add: joinVoiceChannel_def preloadGuildData_def mutualGuildPreloaded_def openHost_def
      quietHost_def lobby_def initial_def called_def suspend_def cachedG1_def rejectingHost_def)

subsection \<open>Exceptions of the host\<close>

text \<open>
  C9.  The connect stage calls \<open>selectVoiceChannel\<close> outside any \<open>try\<close>: when the call
  throws, the exception leaves the timer callback.  In the same way a throwing voice-state
  lookup leaves the callback of the search interval.  (The hub forwards voice-state
  batches inside a \<open>try\<close> of its own; timer and interval callbacks run unwrapped.)
\<close>

theorem connect_exception_escapes_timer_callback:
  "resume brokenConnectHost 0 (initial\<lparr>pending := [(Timeout 100, Connect ''chan1'')]\<rparr>)
     = (Inl Thrown, called (SelectVoiceChannel (Some ''chan1'')) initial)
   \<and> tick brokenVoiceStateHost searchingForX
     = (Inl Thrown, called (GetVoiceStateForUser ''X'') searchingForX)"
  by (simp add: resume_def connectStage_def canJoinChannel_def channelIsPrivate_def
      brokenConnectHost_def openHost_def quietHost_def lobby_def initial_def called_def
      tick_def checkUserInVoiceChannel_def brokenVoiceStateHost_def searchingForX_def)

subsection \<open>Bulk preload on follow\<close>

lemma detectMutualGuilds_filter:
  assumes "\<forall>g \<in> set gs. getGuild h g \<noteq> Inl Thrown"
  shows "detectMutualGuilds h u gs
    = Inr (filter (\<lambda>g. getGuild h g = Inr True
        \<and> (getMember h g u = Inr True \<or> getVoiceStates h g u = Inr True)) gs)"
  using assms
proof (induction gs)
  case Nil
  then show ?case by simp
next
  case (Cons g gs)
  then show ?case
    by (cases "getGuild h g") (auto split: bool.splits intro: error.exhaust)
qed

text \<open>
  C10.  Following a user first issues the REST request for the profile and suspends the
  bulk preload on it.  When the request has settled, the guilds are those of the answer,
  or, when the request failed, the guilds of the local detection: those whose member
  store or voice states know the user.  The loop skips a guild that is in the cache.  For
  a guild that is not, has a default channel and whose preload succeeds, it calls the
  preload, marks the guild, waits 100 ms, requests the channel summaries and goes on with
  the next guild.
\<close>

theorem follow_starts_bulk_preload_of_mutual_guilds:
  assumes "followedUserId s \<noteq> Some u"
  shows "(\<exists>cs. calls (snd (followAction h u n s)) = calls s @ RestGetProfile u # cs)
    \<and> (\<exists>ks. pending (snd (followAction h u n s)) = pending s @ (Settled, MutualGuildsFetched u) # ks)
    \<and> run h1 (MutualGuildsFetched u) t
        = (Inr (), case mutualGuildIds h1 u of Inl e \<Rightarrow> t | Inr gs \<Rightarrow> preloadLoop h1 gs t)
    \<and> (restGet h1 u = Inr (Some ms) \<and> ms \<noteq> [] \<longrightarrow> mutualGuildIds h1 u = Inr ms)
    \<and> (restGet h1 u = Inl e \<and> guildIds h1 = Inr gs \<and> (\<forall>g \<in> set gs. getGuild h1 g \<noteq> Inl Thrown) \<longrightarrow>
         mutualGuildIds h1 u
           = Inr (filter (\<lambda>g. getGuild h1 g = Inr True
               \<and> (getMember h1 g u = Inr True \<or> getVoiceStates h1 g u = Inr True)) gs))
    \<and> (g \<in> preloadedGuilds t \<longrightarrow> preloadLoop h1 (g # rest) t = preloadLoop h1 rest t)
    \<and> (g \<notin> preloadedGuilds t \<and> getDefaultChannel h1 g = Inr (Some d) \<and> d \<noteq> [] \<and> hasPreload h1
          \<and> preload h2 g d = Inr () \<longrightarrow>
         preloadLoop h1 (g # rest) t
           = suspend Settled (MutualGuildPreloaded g d rest) (called (Preload g d) t)
         \<and> resume h2 (length (pending t)) (preloadLoop h1 (g # rest) t)
           = (Inr (), suspend (Timeout 100) (MutualGuildPaused g rest)
                ((called (Preload g d) t)\<lparr>preloadedGuilds := insert g (preloadedGuilds t)\<rparr>))
         \<and> resume h3 (length (pending t)) (snd (resume h2 (length (pending t)) (preloadLoop h1 (g # rest) t)))
           = (Inr (), preloadLoop h3 rest (called (RequestSummaries g)
                ((called (Preload g d) t)\<lparr>preloadedGuilds := insert g (preloadedGuilds t)\<rparr>))))"
proof -
  have calls: "\<exists>cs. calls (snd (followAction h u n s)) = calls s @ RestGetProfile u # cs"
    using assms
    by (auto simp: followAction_def Let_def preloadMutualGuilds_def startSearching_def
        showToast_def joinVoiceChannel_eq split: sum.splits option.splits)
  have pend: "\<exists>ks. pending (snd (followAction h u n s)) = pending s @ (Settled, MutualGuildsFetched u) # ks"
    using assms
    by (auto simp: followAction_def Let_def preloadMutualGuilds_def startSearching_def
        showToast_def joinVoiceChannel_eq split: sum.splits option.splits)
  have fetched: "run h1 (MutualGuildsFetched u) t
        = (Inr (), case mutualGuildIds h1 u of Inl e \<Rightarrow> t | Inr gs \<Rightarrow> preloadLoop h1 gs t)"
    by (simp add: mutualGuildsFetched_def)
  have rest_api: "mutualGuildIds h1 u = Inr ms" if "restGet h1 u = Inr (Some ms) \<and> ms \<noteq> []"
    using that by (simp add: mutualGuildIds_def)
  have local: "mutualGuildIds h1 u
           = Inr (filter (\<lambda>g. getGuild h1 g = Inr True
               \<and> (getMember h1 g u = Inr True \<or> getVoiceStates h1 g u = Inr True)) gs)"
    if "restGet h1 u = Inl e \<and> guildIds h1 = Inr gs \<and> (\<forall>g \<in> set gs. getGuild h1 g \<noteq> Inl Thrown)"
    using that detectMutualGuilds_filter [of gs h1 u] by (simp add: mutualGuildIds_def)
  have skip: "preloadLoop h1 (g # rest) t = preloadLoop h1 rest t" if "g \<in> preloadedGuilds t"
    using that by simp
  have guild: "preloadLoop h1 (g # rest) t
           = suspend Settled (MutualGuildPreloaded g d rest) (called (Preload g d) t)
         \<and> resume h2 (length (pending t)) (preloadLoop h1 (g # rest) t)
           = (Inr (), suspend (Timeout 100) (MutualGuildPaused g rest)
                ((called (Preload g d) t)\<lparr>preloadedGuilds := insert g (preloadedGuilds t)\<rparr>))
         \<and> resume h3 (length (pending t)) (snd (resume h2 (length (pending t)) (preloadLoop h1 (g # rest) t)))
           = (Inr (), preloadLoop h3 rest (called (RequestSummaries g)
                ((called (Preload g d) t)\<lparr>preloadedGuilds := insert g (preloadedGuilds t)\<rparr>)))"
    if "g \<notin> preloadedGuilds t \<and> getDefaultChannel h1 g = Inr (Some d) \<and> d \<noteq> [] \<and> hasPreload h1
          \<and> preload h2 g d = Inr ()"
    using that
    by (simp add: resume_def mutualGuildPreloaded_def mutualGuildPaused_def suspend_def called_def)
  from calls pend fetched rest_api local skip guild show ?thesis by blast
qed

theorem follow_starts_bulk_preload_of_mutual_guilds_witness:
  "followedUserId initial \<noteq> Some ''X''
   \<and> (\<exists>cs. calls (snd (followAction quietHost ''X'' ''x'' initial))
         = calls initial @ RestGetProfile ''X'' # cs)
   \<and> mutualGuildIds restHost ''X'' = Inr [''g1'']
   \<and> mutualGuildIds localHost ''X''
       = Inr (filter (\<lambda>g. getGuild localHost g = Inr True
           \<and> (getMember localHost g ''X'' = Inr True \<or> getVoiceStates localHost g ''X'' = Inr True))
           [''g1'', ''g2''])
   \<and> preloadLoop restHost [''g1''] cachedG1 = preloadLoop restHost [] cachedG1
   \<and> resume restHost (length (pending initial)) (preloadLoop restHost [''g1''] initial)
       = (Inr (), suspend (Timeout 100) (MutualGuildPaused ''g1'' [])
            ((called (Preload ''g1'' ''d1'') initial)
               \<lparr>preloadedGuilds := insert ''g1'' (preloadedGuilds initial)\<rparr>))"
proof -
  have fresh: "followedUserId initial \<noteq> Some ''X''"
    by (simp add: initial_def)
  have answered: "restGet restHost ''X'' = Inr (Some [''g1'']) \<and> [''g1''] \<noteq> []"
    by (simp add: restHost_def)
  have failed: "restGet localHost ''X'' = Inl Thrown \<and> guildIds localHost = Inr [''g1'', ''g2'']
      \<and> (\<forall>g \<in> set [''g1'', ''g2'']. getGuild localHost g \<noteq> Inl Thrown)"
    by (simp add: localHost_def)
  have cached: "''g1'' \<in> preloadedGuilds cachedG1"
    by (simp add: cachedG1_def)
  have loadable: "''g1'' \<notin> preloadedGuilds initial
      \<and> getDefaultChannel restHost ''g1'' = Inr (Some ''d1'') \<and> ''d1'' \<noteq> [] \<and> hasPreload restHost
      \<and> preload restHost ''g1'' ''d1'' = Inr ()"
    by (simp add: restHost_def openHost_def quietHost_def initial_def)
  from fresh answered failed cached loadable
    follow_starts_bulk_preload_of_mutual_guilds
      [OF fresh, of quietHost "''x''" restHost initial "[''g1'']" Thrown "[]" "''g1''" "[]"
        "''d1''" restHost restHost]
    follow_starts_bulk_preload_of_mutual_guilds
      [OF fresh, of quietHost "''x''" localHost initial "[]" Thrown "[''g1'', ''g2'']" "''g1''" "[]"
        "''d1''" restHost restHost]
    follow_starts_bulk_preload_of_mutual_guilds
      [OF fresh, of quietHost "''x''" restHost cachedG1 "[''g1'']" Thrown "[]" "''g1''" "[]"
        "''d1''" restHost restHost]
  show ?thesis by blast
qed

subsection \<open>Join attempts\<close>

text \<open>
  A batch of entries for the followed user that all carry a channel, in a host whose user
  store and toasts do not throw: every entry either finds its channel recorded already or
  schedules a join attempt for it.
\<close>

lemma voiceStateUpdate_attempt:
  assumes "followedUserId s = Some u" and "nullish (userId vs) (user_id vs) = Some u"
    and "truthy (channelId vs)"
    and "\<forall>x e. getUser h x \<noteq> Inl e" and "\<forall>t. toastShow h t = Inr ()"
  shows "fst (voiceStateUpdate h vs s) = Inr Next"
    and "followedUserId (snd (voiceStateUpdate h vs s)) = Some u"
    and "lastFollowedChannelId (snd (voiceStateUpdate h vs s)) = channelId vs"
    and "pending (snd (voiceStateUpdate h vs s)) = pending s
           \<and> lastFollowedChannelId (snd (voiceStateUpdate h vs s)) = lastFollowedChannelId s
         \<or> (\<exists>k. pending (snd (voiceStateUpdate h vs s)) = pending s @ [k]
               \<and> target (snd k) = channelId vs)"
proof -
  obtain c where c: "channelId vs = Some c" "c \<noteq> []"
    using assms(3) by (cases "channelId vs") simp_all
  obtain n where n: "getUser h u = Inr n"
    using assms(4) by (cases "getUser h u") auto
  show "fst (voiceStateUpdate h vs s) = Inr Next"
    using assms c n by (simp add: voiceStateUpdate_def Let_def showToast_def)
  show "followedUserId (snd (voiceStateUpdate h vs s)) = Some u"
    using assms c n by (simp add: voiceStateUpdate_def Let_def showToast_def)
  show "lastFollowedChannelId (snd (voiceStateUpdate h vs s)) = channelId vs"
    using assms c n by (auto simp: voiceStateUpdate_def Let_def showToast_def)
  show "pending (snd (voiceStateUpdate h vs s)) = pending s
           \<and> lastFollowedChannelId (snd (voiceStateUpdate h vs s)) = lastFollowedChannelId s
         \<or> (\<exists>k. pending (snd (voiceStateUpdate h vs s)) = pending s @ [k]
               \<and> target (snd k) = channelId vs)"
    using assms c n target_joinSuspended [of h c "preloadDelay s"]
    by (cases "joinSuspended h c (preloadDelay s)")
      (auto simp: voiceStateUpdate_def Let_def showToast_def joinVoiceChannel_eq called_def)
qed

lemma voiceStateLoop_attempts:
  assumes "followedUserId s = Some u"
    and "\<forall>vs \<in> set us. nullish (userId vs) (user_id vs) = Some u \<and> truthy (channelId vs)"
    and "\<forall>x e. getUser h x \<noteq> Inl e" and "\<forall>t. toastShow h t = Inr ()"
  shows "(pending (snd (voiceStateLoop h us s)) = pending s
            \<and> lastFollowedChannelId (snd (voiceStateLoop h us s)) = lastFollowedChannelId s
          \<or> (\<exists>ks k. pending (snd (voiceStateLoop h us s)) = pending s @ ks @ [k]
                \<and> target (snd k) = lastFollowedChannelId (snd (voiceStateLoop h us s))))
       \<and> (us \<noteq> [] \<longrightarrow> lastFollowedChannelId (snd (voiceStateLoop h us s)) = channelId (last us))"
  using assms(1,2)
proof (induction us arbitrary: s)
  case Nil
  then show ?case by simp
next
  case (Cons vs us)
  obtain r s1 where eq: "voiceStateUpdate h vs s = (r, s1)"
    by (cases "voiceStateUpdate h vs s")
  have vs: "nullish (userId vs) (user_id vs) = Some u" "truthy (channelId vs)"
    using Cons.prems by simp_all
  note one = voiceStateUpdate_attempt [OF Cons.prems(1) vs assms(3,4)]
  have r: "r = Inr Next" and f1: "followedUserId s1 = Some u"
    and l1: "lastFollowedChannelId s1 = channelId vs"
    and p1: "pending s1 = pending s \<and> lastFollowedChannelId s1 = lastFollowedChannelId s
         \<or> (\<exists>k. pending s1 = pending s @ [k] \<and> target (snd k) = channelId vs)"
    using one eq by simp_all
  have loop: "voiceStateLoop h (vs # us) s = voiceStateLoop h us s1"
    using eq r by simp
  have rest: "\<forall>vs \<in> set us. nullish (userId vs) (user_id vs) = Some u \<and> truthy (channelId vs)"
    using Cons.prems by simp
  note ih = Cons.IH [OF f1 rest]
  let ?s' = "snd (voiceStateLoop h us s1)"
  have last: "lastFollowedChannelId ?s' = channelId (last (vs # us))"
    using ih l1 by (cases us) auto
  have "pending ?s' = pending s \<and> lastFollowedChannelId ?s' = lastFollowedChannelId s
      \<or> (\<exists>ks k. pending ?s' = pending s @ ks @ [k] \<and> target (snd k) = lastFollowedChannelId ?s')"
  proof -
    from ih have "pending ?s' = pending s1 \<and> lastFollowedChannelId ?s' = lastFollowedChannelId s1
        \<or> (\<exists>ks k. pending ?s' = pending s1 @ ks @ [k] \<and> target (snd k) = lastFollowedChannelId ?s')"
      by simp
    then show ?thesis
    proof
      assume same: "pending ?s' = pending s1 \<and> lastFollowedChannelId ?s' = lastFollowedChannelId s1"
      from p1 show ?thesis
      proof
        assume "pending s1 = pending s \<and> lastFollowedChannelId s1 = lastFollowedChannelId s"
        with same show ?thesis by simp
      next
        assume "\<exists>k. pending s1 = pending s @ [k] \<and> target (snd k) = channelId vs"
        then obtain k where "pending s1 = pending s @ [k]" "target (snd k) = channelId vs"
          by blast
        with same l1 have "pending ?s' = pending s @ [] @ [k] \<and> target (snd k) = lastFollowedChannelId ?s'"
          by simp
        then show ?thesis by blast
      qed
    next
      assume "\<exists>ks k. pending ?s' = pending s1 @ ks @ [k] \<and> target (snd k) = lastFollowedChannelId ?s'"
      then obtain ks k where more: "pending ?s' = pending s1 @ ks @ [k]"
        "target (snd k) = lastFollowedChannelId ?s'" by blast
      from p1 show ?thesis
      proof
        assume "pending s1 = pending s \<and> lastFollowedChannelId s1 = lastFollowedChannelId s"
        with more have "pending ?s' = pending s @ ks @ [k]" by simp
        with more(2) show ?thesis by blast
      next
        assume "\<exists>k. pending s1 = pending s @ [k] \<and> target (snd k) = channelId vs"
        then obtain k1 where "pending s1 = pending s @ [k1]" by blast
        with more have "pending ?s' = pending s @ (k1 # ks) @ [k]" by simp
        with more(2) show ?thesis by blast
      qed
    qed
  qed
  with last show ?case unfolding loop by simp
qed

text \<open>
  C1, as amended.  \<open>joinVoiceChannel\<close> records its channel in \<open>lastFollowedChannelId\<close>
  at once and suspends one continuation for that channel.  The navigate and the connect
  stage act on the channel of their own attempt: what they call is decided by the
  permission oracle for that channel alone, whatever the session says when they fire.
  After a batch of entries for the followed user that all carry a channel,
  \<open>lastFollowedChannelId\<close> is the channel of the last entry, and if the batch scheduled
  any attempt, the attempt scheduled last is for that channel.
\<close>

theorem join_stages_act_on_captured_channel:
  "lastFollowedChannelId (joinVoiceChannel h c s) = Some c
   \<and> (\<exists>k. pending (joinVoiceChannel h c s) = pending s @ [k] \<and> target (snd k) = Some c)
   \<and> calls (snd (navigateStage h c s))
       = calls s @ (if canViewChannel h c = Inr True then [TransitionToChannel c] else [])
   \<and> calls (snd (connectStage h c s))
       = calls s @ (if canJoinChannel h c = Inr True then [SelectVoiceChannel (Some c)] else [])
   \<and> (followedUserId s = Some u \<and> u \<noteq> []
        \<and> nullish (voiceStates p) (voice_states p) = Some (Array us) \<and> us \<noteq> []
        \<and> (\<forall>vs \<in> set us. nullish (userId vs) (user_id vs) = Some u \<and> truthy (channelId vs))
        \<and> (\<forall>x e. getUser h x \<noteq> Inl e) \<and> (\<forall>t. toastShow h t = Inr ()) \<longrightarrow>
      lastFollowedChannelId (snd (VOICE_STATE_UPDATES h p s)) = channelId (last us)
      \<and> (pending (snd (VOICE_STATE_UPDATES h p s)) = pending s
          \<or> (\<exists>ks k. pending (snd (VOICE_STATE_UPDATES h p s)) = pending s @ ks @ [k]
                \<and> target (snd k) = channelId (last us))))"
proof -
  have recorded: "lastFollowedChannelId (joinVoiceChannel h c s) = Some c" by simp
  have scheduled: "\<exists>k. pending (joinVoiceChannel h c s) = pending s @ [k] \<and> target (snd k) = Some c"
    by (simp add: joinVoiceChannel_eq)
  have navigate: "calls (snd (navigateStage h c s))
       = calls s @ (if canViewChannel h c = Inr True then [TransitionToChannel c] else [])"
    by (auto simp: navigateStage_def split: sum.splits)
  have connect: "calls (snd (connectStage h c s))
       = calls s @ (if canJoinChannel h c = Inr True then [SelectVoiceChannel (Some c)] else [])"
    by (auto simp: connectStage_def split: sum.splits)
  have batch: "lastFollowedChannelId (snd (VOICE_STATE_UPDATES h p s)) = channelId (last us)
      \<and> (pending (snd (VOICE_STATE_UPDATES h p s)) = pending s
          \<or> (\<exists>ks k. pending (snd (VOICE_STATE_UPDATES h p s)) = pending s @ ks @ [k]
                \<and> target (snd k) = channelId (last us)))"
    if "followedUserId s = Some u \<and> u \<noteq> []
        \<and> nullish (voiceStates p) (voice_states p) = Some (Array us) \<and> us \<noteq> []
        \<and> (\<forall>vs \<in> set us. nullish (userId vs) (user_id vs) = Some u \<and> truthy (channelId vs))
        \<and> (\<forall>x e. getUser h x \<noteq> Inl e) \<and> (\<forall>t. toastShow h t = Inr ())"
  proof -
    have handler: "VOICE_STATE_UPDATES h p s = voiceStateLoop h us s"
      using that by (simp add: VOICE_STATE_UPDATES_def)
    from that voiceStateLoop_attempts [of s u us h]
    show ?thesis unfolding handler by auto
  qed
  from recorded scheduled navigate connect batch show ?thesis by blast
qed

theorem join_stages_act_on_captured_channel_witness:
  "followedUserId searchingForX = Some ''X''
   \<and> lastFollowedChannelId (snd (VOICE_STATE_UPDATES quietHost movedTwice searchingForX))
       = Some ''chan2''
   \<and> (pending (snd (VOICE_STATE_UPDATES quietHost movedTwice searchingForX)) = pending searchingForX
        \<or> (\<exists>ks k. pending (snd (VOICE_STATE_UPDATES quietHost movedTwice searchingForX))
                = pending searchingForX @ ks @ [k]
              \<and> target (snd k) = Some ''chan2''))"
proof -
  let ?us = "[\<lparr>userId = Some ''X'', user_id = None, channelId = Some ''chan1''\<rparr>,
        \<lparr>userId = Some ''X'', user_id = None, channelId = Some ''chan2''\<rparr>]"
  have followed: "followedUserId searchingForX = Some ''X''"
    by (simp add: searchingForX_def initial_def)
  have batch: "followedUserId searchingForX = Some ''X'' \<and> ''X'' \<noteq> []
      \<and> nullish (voiceStates movedTwice) (voice_states movedTwice) = Some (Array ?us) \<and> ?us \<noteq> []
      \<and> (\<forall>vs \<in> set ?us. nullish (userId vs) (user_id vs) = Some ''X'' \<and> truthy (channelId vs))
      \<and> (\<forall>x e. getUser quietHost x \<noteq> Inl e) \<and> (\<forall>t. toastShow quietHost t = Inr ())"
    by (simp add: searchingForX_def initial_def movedTwice_def quietHost_def)
  have final: "channelId (last ?us) = Some ''chan2''"
    by simp
  note attempt =
    join_stages_act_on_captured_channel
      [of quietHost "''chan2''" searchingForX "''X''" movedTwice ?us,
        THEN conjunct2, THEN conjunct2, THEN conjunct2, THEN conjunct2, THEN mp, OF batch]
  show ?thesis
    using followed attempt unfolding final by (intro conjI) blast+
qed

text \<open>
  C1, as stated, fails: the join for \<open>chan1\<close> is scheduled, then the controller is
  stopped, which clears the followed user and \<open>lastFollowedChannelId\<close> and leaves the
  timer pending.  When the two stages fire, in a host where the channel is loaded and
  permitted, they navigate and connect to \<open>chan1\<close>.
\<close>

theorem stale_stage_still_fires_counterexample:
  "followedUserId stoppedWhileJoining = None
   \<and> lastFollowedChannelId stoppedWhileJoining = None
   \<and> pending stoppedWhileJoining = [(Timeout 300, Navigate ''chan1'')]
   \<and> calls (snd (resume openHost 0 (snd (resume openHost 0 stoppedWhileJoining))))
       = calls stoppedWhileJoining @ [TransitionToChannel ''chan1'', SelectVoiceChannel (Some ''chan1'')]"
  by (simp add: stoppedWhileJoining_def stop_def VOICE_STATE_UPDATES_def voiceStateUpdate_def
      Let_def showToast_def joinVoiceChannel_def preloadGuildData_def preloadCompleted_def
      resume_def navigateStage_def connectStage_def canViewChannel_def canJoinChannel_def
      channelIsPrivate_def moved_def searchingForX_def initial_def quietHost_def openHost_def
      lobby_def called_def suspend_def stopSearching_def)


end
